theory Spec2Isabelle
  imports Main
begin

section \<open>The program: \<open>zug/util.hpp\<close>\<close>

subsection \<open>Callables and chains\<close>

text \<open>
  How a callable object is reached when it is invoked: as a mutable lvalue (the
  \<open>&\<close>-qualified call operator is chosen), as a const lvalue (\<open>const&\<close>) or as an
  rvalue (\<open>&&\<close>). The same three categories qualify a reference.
\<close>

datatype category = Lvalue | ConstLvalue | Rvalue

text \<open>
  A callable is one of
  \<^item> \<open>Fn f\<close>: a callable without data members (a function, a captureless lambda, an empty
    function object): the call does not depend on the category and leaves nothing behind. \<open>f args = None\<close> stands for a call that is ill-formed for
    this argument list.
  \<^item> \<open>Functor call st\<close>: a function object with data members \<open>st\<close>; \<open>call c st args\<close> is
    the call operator selected by the category \<open>c\<close>, returning the result and the data
    members after the call (or \<open>None\<close> when no overload is viable).
  \<^item> \<open>Composed f fs\<close>: \<open>composed<Fn, Fns...>\<close> (lines 92--129), which derives from
    \<open>std::tuple<Fn, Fns...>\<close>: the first element and the remaining ones. The template needs
    at least one element.
\<close>

datatype ('s, 'v) callable =
    Fn "'v list \<Rightarrow> 'v option"
  | Functor "category \<Rightarrow> 's \<Rightarrow> 'v list \<Rightarrow> ('v \<times> 's) option" 's
  | Composed "('s, 'v) callable" "('s, 'v) callable list"

text \<open>\<open>std::tuple<Fn, Fns...>\<close> with at least one element: the element 0 and the rest.\<close>

type_synonym 'c fn_tuple = "'c \<times> 'c list"

fun tuple_size :: "'c fn_tuple \<Rightarrow> nat" where
  "tuple_size (f, fs) = Suc (length fs)"

fun tuple_list :: "'c fn_tuple \<Rightarrow> 'c list" where
  "tuple_list (f, fs) = f # fs"

text \<open>\<open>std::get<i>\<close>; an index past the end does not compile (\<open>None\<close>).\<close>

fun get :: "nat \<Rightarrow> 'c fn_tuple \<Rightarrow> 'c option" where
  "get 0 (f, fs) = Some f"
| "get (Suc i) (f, fs) = (if i < length fs then Some (fs ! i) else None)"

text \<open>
  \<open>std::get<i>\<close> yields a reference into the tuple, so a call that changes the data
  members of the element changes the tuple in place: \<open>put i g t\<close> is the tuple after it.
\<close>

fun put :: "nat \<Rightarrow> 'c \<Rightarrow> 'c fn_tuple \<Rightarrow> 'c fn_tuple" where
  "put 0 g (f, fs) = (g, fs)"
| "put (Suc i) g (f, fs) = (f, fs[i := g])"

text \<open>The size of the elements up to index \<open>i\<close>, by which the invocation terminates.\<close>

fun size_upto :: "nat \<Rightarrow> ('s, 'v) callable fn_tuple \<Rightarrow> nat" where
  "size_upto i (f, fs) = size f + size_list size (take i fs)"

subsection \<open>Invocation\<close>

text \<open>
  \<open>invoke c f args\<close> is \<open>compat::invoke\<close> of the callable \<open>f\<close>, reached with category
  \<open>c\<close>, on the arguments \<open>args\<close>: the value of the result and the callable after the
  call. Arguments and results are values here: which element is invoked when, on what, in
  which category, and what the call leaves in it. Whether a result is a reference, and to
  which object, is the subject of \<open>invoke_composition_impl_expr\<close> below.

  Modelled from the spec: \<open>compat::invoke\<close> (\<open>zug/compat/invoke.hpp\<close> is not among the
  sources) "produces the result of invoking the callable with those arguments" with "no
  side effects beyond those of the invocation itself": on \<open>Fn\<close> and \<open>Functor\<close> it is the
  callable's own call.

  On a chain it is \<open>composed::operator()\<close> (lines 105--122): each of the three overloads
  hands \<open>as_tuple()\<close>, in the category of the chain, to \<open>invoke_composition\<close>, which
  starts \<open>invoke_composition_impl<Size - 1>::apply\<close>.

  \<open>invoke_composition_impl<Index>::apply\<close> (lines 60--82) invokes the element
  \<open>std::get<Index>(std::forward<Fns>(fns))\<close>, which has the category of the tuple, on the
  arguments, and hands the one result to \<open>invoke_composition_impl<Index - 1>\<close>; at index
  0 the result of the element is the result.
\<close>

function invoke ::
    "category \<Rightarrow> ('s, 'v) callable \<Rightarrow> 'v list \<Rightarrow> ('v \<times> ('s, 'v) callable) option"
  and invoke_composition_impl ::
    "nat \<Rightarrow> category \<Rightarrow> ('s, 'v) callable fn_tuple \<Rightarrow> 'v list
      \<Rightarrow> ('v \<times> ('s, 'v) callable fn_tuple) option"
where
  "invoke c (Fn f) args =
     (case f args of None \<Rightarrow> None | Some r \<Rightarrow> Some (r, Fn f))"
| "invoke c (Functor call st) args =
     (case call c st args of None \<Rightarrow> None
      | Some (r, st') \<Rightarrow> Some (r, Functor call st'))"
| "invoke c (Composed f fs) args =
     (case invoke_composition_impl (tuple_size (f, fs) - 1) c (f, fs) args of
        None \<Rightarrow> None
      | Some (r, (f', fs')) \<Rightarrow> Some (r, Composed f' fs'))"
| "invoke_composition_impl 0 c fns args =
     (case get 0 fns of None \<Rightarrow> None
      | Some f \<Rightarrow>
         (case invoke c f args of None \<Rightarrow> None
          | Some (r, f') \<Rightarrow> Some (r, put 0 f' fns)))"
| "invoke_composition_impl (Suc i) c fns args =
     (case get (Suc i) fns of None \<Rightarrow> None
      | Some g \<Rightarrow>
         (case invoke c g args of None \<Rightarrow> None
          | Some (r, g') \<Rightarrow> invoke_composition_impl i c (put (Suc i) g' fns) [r]))"
  by pat_completeness auto

termination
  by (relation "measure (\<lambda>x. case x of
          Inl (c, f, args) \<Rightarrow> 2 * size f
        | Inr (i, c, fns, args) \<Rightarrow> 2 * size_upto i fns + 1)")
     (auto simp: take_Suc_conv_app_nth split: if_splits)

text \<open>
  \<open>invoke_composition\<close> (lines 84--90): \<open>Size\<close> is the number of elements of the tuple,
  and the recursion starts at the last index.
\<close>

definition invoke_composition ::
    "category \<Rightarrow> ('s, 'v) callable fn_tuple \<Rightarrow> 'v list
      \<Rightarrow> ('v \<times> ('s, 'v) callable fn_tuple) option" where
  "invoke_composition c fns args = invoke_composition_impl (tuple_size fns - 1) c fns args"

subsection \<open>Building chains\<close>

text \<open>\<open>is_composed_v<T>\<close> (lines 131--135): true exactly for the instances of \<open>composed\<close>.\<close>

fun is_composed_v :: "('s, 'v) callable \<Rightarrow> bool" where
  "is_composed_v (Composed f fs) = True"
| "is_composed_v (Fn f) = False"
| "is_composed_v (Functor call st) = False"

text \<open>
  \<open>to_function_tuple\<close> (lines 137--154): the overload that takes \<open>meta::try_t\<close> is enabled
  by \<open>is_composed_v\<close> and returns \<open>as_tuple()\<close>, the tuple the chain derives from; the
  overload that takes \<open>meta::catch_t\<close> returns \<open>std::make_tuple(fn)\<close>.

  Modelled from the spec: the two tag types (\<open>zug/meta/dispatch.hpp\<close> is not among the
  sources) rank the overloads, the first one winning where it is enabled: "if it is an
  existing chain, its elements are unpacked in order and appended individually;
  otherwise the value itself is appended as a single element".
\<close>

fun to_function_tuple :: "('s, 'v) callable \<Rightarrow> ('s, 'v) callable fn_tuple" where
  "to_function_tuple (Composed f fs) = (f, fs)"
| "to_function_tuple (Fn f) = (Fn f, [])"
| "to_function_tuple (Functor call st) = (Functor call st, [])"

text \<open>\<open>std::tuple_cat\<close> of a first tuple and any number of further ones.\<close>

fun tuple_cat :: "'c fn_tuple \<Rightarrow> 'c fn_tuple list \<Rightarrow> 'c fn_tuple" where
  "tuple_cat (f, fs) ts = (f, fs @ concat (map tuple_list ts))"

text \<open>\<open>make_composed\<close> (lines 168--173): \<open>composed<Fns...>\<close> from a \<open>std::tuple<Fns...>\<close>.\<close>

fun make_composed :: "('s, 'v) callable fn_tuple \<Rightarrow> ('s, 'v) callable" where
  "make_composed (f, fs) = Composed f fs"

text \<open>
  \<open>comp\<close>: the first argument and the rest of the argument list. With one argument the
  non-variadic overload (lines 187--191) is the more specialised one and is chosen: it
  returns \<open>composed<std::decay_t<F>>\<close> holding the argument. With two or more arguments
  the variadic overload (lines 193--199) concatenates the function tuples of all of them.
\<close>

fun comp_fns :: "('s, 'v) callable \<Rightarrow> ('s, 'v) callable list \<Rightarrow> ('s, 'v) callable" where
  "comp_fns f [] = Composed f []"
| "comp_fns f (g # gs) =
     make_composed (tuple_cat (to_function_tuple f) (map to_function_tuple (g # gs)))"

text \<open>
  \<open>operator|\<close> (lines 203--210): the \<open>enable_if\<close> removes the overload (\<open>None\<close>) unless
  one of the operands is a chain.
\<close>

definition operator_pipe ::
    "('s, 'v) callable \<Rightarrow> ('s, 'v) callable \<Rightarrow> ('s, 'v) callable option" where
  "operator_pipe lhs rhs =
     (if is_composed_v lhs \<or> is_composed_v rhs then Some (comp_fns lhs [rhs]) else None)"

subsection \<open>Value categories of the primitive callables\<close>

text \<open>
  What \<open>identity\<close>, \<open>identity_\<close> and \<open>constantly\<close> return depends on references, so
  here objects live in a store, at addresses. An expression is a reference to an object
  (\<open>T&\<close> is \<open>Ref Lvalue\<close>, \<open>const T&\<close> is \<open>Ref ConstLvalue\<close>, \<open>T&&\<close> is
  \<open>Ref Rvalue\<close>) or a prvalue, a value that is in no object yet.
\<close>

type_synonym addr = nat

type_synonym 'a store = "'a list"

datatype 'a expr = Ref category addr | Prvalue 'a

definition lookup :: "'a store \<Rightarrow> addr \<Rightarrow> 'a option" where
  "lookup s a = (if a < length s then Some (s ! a) else None)"

text \<open>Reading an expression.\<close>

fun value_of :: "'a expr \<Rightarrow> 'a store \<Rightarrow> 'a option" where
  "value_of (Ref c a) s = lookup s a"
| "value_of (Prvalue v) s = Some v"

text \<open>
  A prvalue becomes an object (a temporary, or the variable that it initialises) at a
  new address.
\<close>

definition materialize :: "'a \<Rightarrow> 'a store \<Rightarrow> addr \<times> 'a store" where
  "materialize v s = (length s, s @ [v])"

text \<open>
  Binding a forwarding reference \<open>T&& x\<close> to an argument: \<open>T\<close> is deduced as an lvalue
  reference for an lvalue, so \<open>x\<close> keeps the category of the argument; a prvalue is
  materialised and \<open>x\<close> is an rvalue reference to the temporary.
\<close>

fun bind_forwarding :: "'a expr \<Rightarrow> 'a store \<Rightarrow> (category \<times> addr) \<times> 'a store" where
  "bind_forwarding (Ref c a) s = ((c, a), s)"
| "bind_forwarding (Prvalue v) s = (case materialize v s of (a, s') \<Rightarrow> ((Rvalue, a), s'))"

text \<open>
  Changing an object through an expression: not through a reference to const; through a
  prvalue the change goes to the temporary.
\<close>

fun assign_through :: "'a expr \<Rightarrow> 'a \<Rightarrow> 'a store \<Rightarrow> 'a store option" where
  "assign_through (Ref ConstLvalue a) w s = None"
| "assign_through (Ref c a) w s = (if a < length s then Some (s[a := w]) else None)"
| "assign_through (Prvalue v) w s = (case materialize v s of (a, s') \<Rightarrow> Some (s'[a := w]))"

text \<open>
  Initialising a new object of type \<open>std::decay_t<T>\<close> from \<open>std::forward<T>(x)\<close>, where
  \<open>T&& x\<close> is bound to the argument: the object is copied from an lvalue and moved from
  an rvalue. The move constructor of the type is not part of the sources:
  \<open>moved_from v\<close> is what it leaves in an object that held \<open>v\<close>.
\<close>

definition init_from_forward ::
    "('a \<Rightarrow> 'a) \<Rightarrow> 'a expr \<Rightarrow> 'a store \<Rightarrow> ('a \<times> 'a store) option" where
  "init_from_forward moved_from e s =
     (case bind_forwarding e s of
        ((c, a), s') \<Rightarrow>
          (case lookup s' a of None \<Rightarrow> None
           | Some v \<Rightarrow> Some (v, case c of Rvalue \<Rightarrow> s'[a := moved_from v] | _ \<Rightarrow> s')))"

text \<open>
  \<open>identity_t::operator()\<close> (lines 38--42): the return type is \<open>decltype(auto)\<close> and the
  returned expression is \<open>std::forward<decltype(x)>(x)\<close>, so the result is the reference
  \<open>x\<close> itself, of type \<open>T&&\<close>.
\<close>

definition identity_t_call :: "'a expr \<Rightarrow> 'a store \<Rightarrow> 'a expr \<times> 'a store" where
  "identity_t_call e s = (case bind_forwarding e s of ((c, a), s') \<Rightarrow> (Ref c a, s'))"

text \<open>
  \<open>identity__t::operator()\<close> (lines 51--55): the return type is \<open>auto\<close>, an object type,
  so the result is a new object initialised from \<open>std::forward<decltype(x)>(x)\<close>.
\<close>

definition identity__t_call ::
    "('a \<Rightarrow> 'a) \<Rightarrow> 'a expr \<Rightarrow> 'a store \<Rightarrow> ('a expr \<times> 'a store) option" where
  "identity__t_call moved_from e s =
     (case init_from_forward moved_from e s of None \<Rightarrow> None
      | Some (v, s') \<Rightarrow> Some (Prvalue v, s'))"

text \<open>
  \<open>constantly_t<T>\<close> (lines 217--239) has one data member, \<open>value\<close>. \<open>constantly\<close>
  (lines 244--248) returns \<open>constantly_t<std::decay_t<T>>\<close> with the member initialised
  from \<open>std::forward<T>(value)\<close>.
\<close>

record 'a constantly_t =
  value' :: 'a

definition constantly ::
    "('a \<Rightarrow> 'a) \<Rightarrow> 'a expr \<Rightarrow> 'a store \<Rightarrow> ('a constantly_t \<times> 'a store) option" where
  "constantly moved_from e s =
     (case init_from_forward moved_from e s of None \<Rightarrow> None
      | Some (v, s') \<Rightarrow> Some (\<lparr>value' = v\<rparr>, s'))"

text \<open>
  \<open>constantly_t::operator()\<close> (lines 222--238) of the object at \<open>this\<close>, which is also
  the address of its only member: the arguments are ignored; the \<open>&\<close> overload returns
  \<open>value\<close> as \<open>T&\<close>, the \<open>const&\<close> overload as \<open>const T&\<close>, and the \<open>&&\<close> overload
  returns \<open>std::move(value)\<close> as \<open>T&&\<close>.
\<close>

fun constantly_t_call :: "category \<Rightarrow> addr \<Rightarrow> 'b list \<Rightarrow> 'a expr" where
  "constantly_t_call Lvalue this args = Ref Lvalue this"
| "constantly_t_call ConstLvalue this args = Ref ConstLvalue this"
| "constantly_t_call Rvalue this args = Ref Rvalue this"

subsection \<open>Invocation of a chain, with its result as an expression\<close>

text \<open>
  \<open>invoke\<close> above says which element is invoked when, on which arguments and in which
  category, and what each call leaves in the element; its results are the values handed
  from stage to stage. What a chain returns is an expression, though: every function on
  the way has the return type \<open>decltype(auto)\<close>, so a reference returned by element 0 is
  returned as a reference. Here the same functions are given with expressions for
  arguments and results, over the store; the data members of a function object are
  objects of the store.

  A memory is the store together with the addresses of the objects that are destroyed.
  Reading through a reference to a destroyed object gives no value.
\<close>

type_synonym 'a memory = "'a store \<times> addr list"

fun read :: "'a expr \<Rightarrow> 'a memory \<Rightarrow> 'a option" where
  "read (Ref k a) (s, dead) = (if a \<in> set dead then None else lookup s a)"
| "read (Prvalue v) m = Some v"

text \<open>
  A callable on expressions: the category it is invoked in, the argument expressions and
  the memory give the result expression and the memory after the call (\<open>None\<close>: the
  call is ill-formed or reads no value).
\<close>

type_synonym 'a object_call =
  "category \<Rightarrow> 'a expr list \<Rightarrow> 'a memory \<Rightarrow> ('a expr \<times> 'a memory) option"

text \<open>
  Binding the parameter pack \<open>Args&&... args\<close> to the arguments, one forwarding reference
  each; \<open>std::forward<Args>(args)...\<close> then are the references.
\<close>

fun bind_all :: "'a expr list \<Rightarrow> 'a store \<Rightarrow> 'a expr list \<times> 'a store" where
  "bind_all [] s = ([], s)"
| "bind_all (x # xs) s =
     (case bind_forwarding x s of
        ((k, a), s') \<Rightarrow> (case bind_all xs s' of (refs, s'') \<Rightarrow> (Ref k a # refs, s'')))"

text \<open>
  Modelled from the spec: \<open>compat::invoke(f, args...)\<close> (\<open>zug/compat/invoke.hpp\<close> is not
  among the sources) must "forward each argument without unnecessary copying" and
  "preserve the invoked expression's natural result type and value category": it binds
  its parameters to the arguments and returns the expression that the call of \<open>f\<close> on
  them returns.
\<close>

definition compat_invoke :: "'a object_call \<Rightarrow> 'a object_call" where
  "compat_invoke f c xs m =
     (case bind_all xs (fst m) of (refs, s') \<Rightarrow> f c refs (s', snd m))"

text \<open>
  \<open>invoke_composition_impl<Index>::apply\<close> (lines 60--82). For \<open>Index > 0\<close> the return
  statement calls \<open>invoke_composition_impl<Index - 1>::apply\<close> on the result of
  \<open>compat::invoke\<close> of the element at \<open>Index\<close>. The parameter \<open>Args&& args\<close> of the
  callee is bound to that result; when the result is a prvalue it is materialised into a
  temporary of the return statement, which is destroyed when the statement has been
  evaluated, that is before the caller has the result. The result itself is what the
  callee returned, a reference if that is a reference.
\<close>

fun invoke_composition_impl_expr ::
    "nat \<Rightarrow> category \<Rightarrow> 'a object_call fn_tuple \<Rightarrow> 'a expr list \<Rightarrow> 'a memory
      \<Rightarrow> ('a expr \<times> 'a memory) option" where
  "invoke_composition_impl_expr 0 c fns args m =
     (case get 0 fns of None \<Rightarrow> None | Some f \<Rightarrow> compat_invoke f c args m)"
| "invoke_composition_impl_expr (Suc i) c fns args m =
     (case get (Suc i) fns of None \<Rightarrow> None
      | Some g \<Rightarrow>
         (case compat_invoke g c args m of None \<Rightarrow> None
          | Some (r, (s1, d1)) \<Rightarrow>
             (case bind_forwarding r s1 of
                ((k, a), s2) \<Rightarrow>
                  (case invoke_composition_impl_expr i c fns [Ref k a] (s2, d1) of
                     None \<Rightarrow> None
                   | Some (r', (s3, d3)) \<Rightarrow>
                       Some (r', (s3, case r of Prvalue v \<Rightarrow> a # d3 | Ref k' a' \<Rightarrow> d3))))))"

text \<open>\<open>invoke_composition\<close> (lines 84--90), on expressions.\<close>

definition invoke_composition_expr ::
    "category \<Rightarrow> 'a object_call fn_tuple \<Rightarrow> 'a expr list \<Rightarrow> 'a memory
      \<Rightarrow> ('a expr \<times> 'a memory) option" where
  "invoke_composition_expr c fns args m =
     invoke_composition_impl_expr (tuple_size fns - 1) c fns args m"

text \<open>
  \<open>composed::operator()\<close> (lines 105--122) of a chain with the tuple \<open>fns\<close>, invoked in
  category \<open>c\<close>: the parameters \<open>T&&... xs\<close> are bound to the arguments of the caller
  (a temporary made for a prvalue argument is the caller's and outlives the call), and
  \<open>invoke_composition\<close> gets the tuple in the category of the chain. A chain is a
  callable on expressions itself.
\<close>

definition composed_call :: "'a object_call fn_tuple \<Rightarrow> 'a object_call" where
  "composed_call fns c xs m =
     (case bind_all xs (fst m) of
        (refs, s') \<Rightarrow> invoke_composition_expr c fns refs (s', snd m))"

text \<open>
  \<open>identity\<close> (lines 36--43) as a callable on expressions: its call operator is \<open>const\<close>
  and takes exactly one argument. A \<open>constantly_t\<close> object at \<open>this\<close> likewise.
\<close>

definition identity_fn :: "'a object_call" where
  "identity_fn c xs m =
     (case xs of
        [x] \<Rightarrow> (case identity_t_call x (fst m) of (r, s') \<Rightarrow> Some (r, (s', snd m)))
      | _ \<Rightarrow> None)"

definition constantly_fn :: "addr \<Rightarrow> 'a object_call" where
  "constantly_fn this c xs m = Some (constantly_t_call c this xs, m)"

section \<open>Notions that the properties are stated with\<close>

text \<open>The number of elements of a chain, and whether none of them is a chain itself.\<close>

fun chain_length :: "('s, 'v) callable \<Rightarrow> nat" where
  "chain_length (Composed f fs) = tuple_size (f, fs)"
| "chain_length (Fn f) = 0"
| "chain_length (Functor call st) = 0"

fun flat :: "('s, 'v) callable \<Rightarrow> bool" where
  "flat (Composed f fs) = list_all (\<lambda>g. \<not> is_composed_v g) (f # fs)"
| "flat (Fn f) = True"
| "flat (Functor call st) = True"

text \<open>
  The fold as the specification words it: the chain \<open>(f, g # gs)\<close> on \<open>args\<close> is \<open>f\<close>
  on the single result of the chain \<open>(g, gs)\<close> on \<open>args\<close>; only the last element is
  handed \<open>args\<close> itself.
\<close>

fun right_to_left_fold ::
    "category \<Rightarrow> ('s, 'v) callable \<Rightarrow> ('s, 'v) callable list \<Rightarrow> 'v list
      \<Rightarrow> ('v \<times> ('s, 'v) callable fn_tuple) option" where
  "right_to_left_fold c f [] args =
     (case invoke c f args of None \<Rightarrow> None | Some (r, f') \<Rightarrow> Some (r, (f', [])))"
| "right_to_left_fold c f (g # gs) args =
     (case right_to_left_fold c g gs args of None \<Rightarrow> None
      | Some (r, (g', gs')) \<Rightarrow>
         (case invoke c f [r] of None \<Rightarrow> None
          | Some (r', f') \<Rightarrow> Some (r', (f', g' # gs'))))"


text \<open>
  Callables to invoke chains on. \<open>unary h\<close> is a function of one argument. \<open>recorder\<close>
  records every argument list it is called with and returns the sum of the arguments.
  \<open>counter n\<close> has a call operator that is not \<open>const\<close>:
  \<open>int operator()(int x) { return x + n++; }\<close>. \<open>holder v\<close> returns what it holds; its
  \<open>&&\<close>-qualified call operator gives the held value away and leaves \<open>0\<close> behind, its
  other two call operators leave it alone.
\<close>

definition unary :: "('v \<Rightarrow> 'v) \<Rightarrow> ('s, 'v) callable" where
  "unary h = Fn (\<lambda>args. case args of [x] \<Rightarrow> Some (h x) | _ \<Rightarrow> None)"

definition recorder :: "nat list list \<Rightarrow> (nat list list, nat) callable" where
  "recorder seen = Functor (\<lambda>c seen args. Some (sum_list args, seen @ [args])) seen"



text \<open>
  The expression \<open>f(g(xs...))\<close> as the caller writes it: the temporary that holds a
  prvalue result of \<open>g\<close> lives to the end of the caller's full expression, so nothing is
  destroyed when \<open>f\<close> has returned. The value of a result is what reading it gives.
\<close>

definition nested_call :: "'a object_call \<Rightarrow> 'a object_call \<Rightarrow> 'a object_call" where
  "nested_call f g c xs m =
     (case compat_invoke g c xs m of None \<Rightarrow> None
      | Some (r, (s1, d1)) \<Rightarrow>
         (case bind_forwarding r s1 of ((k, a), s2) \<Rightarrow> compat_invoke f c [Ref k a] (s2, d1)))"

definition result_value :: "('a expr \<times> 'a memory) option \<Rightarrow> 'a option" where
  "result_value x = (case x of None \<Rightarrow> None | Some (r, m) \<Rightarrow> read r m)"

definition returns_by_value :: "'a object_call \<Rightarrow> bool" where
  "returns_by_value f = (\<forall>c xs m r m'. f c xs m = Some (r, m') \<longrightarrow> (\<exists>v. r = Prvalue v))"

definition returns_reference :: "'a object_call \<Rightarrow> bool" where
  "returns_reference f = (\<forall>c xs m r m'. f c xs m = Some (r, m') \<longrightarrow> (\<exists>k a. r = Ref k a))"

text \<open>
  \<open>by_value h\<close> is a function of one argument that reads its argument and returns
  \<open>h\<close> of it by value, as \<open>unary h\<close> on expressions.
\<close>

definition by_value :: "('a \<Rightarrow> 'a) \<Rightarrow> 'a object_call" where
  "by_value h c xs m =
     (case xs of
        [x] \<Rightarrow> (case read x m of None \<Rightarrow> None | Some v \<Rightarrow> Some (Prvalue (h v), m))
      | _ \<Rightarrow> None)"

section \<open>Properties\<close>

subsection \<open>The index recursion is the right-to-left fold\<close>

lemma right_to_left_fold_append:
  "right_to_left_fold c f (gs @ h # hs) args =
     (case right_to_left_fold c h hs args of None \<Rightarrow> None
      | Some (r, (h', hs')) \<Rightarrow>
         (case right_to_left_fold c f gs [r] of None \<Rightarrow> None
          | Some (r', (f', gs')) \<Rightarrow> Some (r', (f', gs' @ h' # hs'))))"
  by (induction gs arbitrary: f) (auto split: option.splits)

lemma invoke_composition_impl_fold:
  "i \<le> length fs \<Longrightarrow>
   invoke_composition_impl i c (f, fs) args =
     (case right_to_left_fold c f (take i fs) args of None \<Rightarrow> None
      | Some (r, (f', gs')) \<Rightarrow> Some (r, (f', gs' @ drop i fs)))"
proof (induction i arbitrary: fs args)
  case 0
  show ?case by (simp split: option.splits)
next
  case (Suc i)
  then have i: "i < length fs" by simp
  have tk: "take (Suc i) fs = take i fs @ [fs ! i]"
    using i by (simp add: take_Suc_conv_app_nth)
  have dr: "\<And>g'. drop i (fs[i := g']) = g' # drop (Suc i) fs"
    using i by (simp add: drop_update_cancel Cons_nth_drop_Suc [symmetric] upd_conv_take_nth_drop)
  have ih: "\<And>g' r. invoke_composition_impl i c (f, fs[i := g']) [r] =
     (case right_to_left_fold c f (take i fs) [r] of None \<Rightarrow> None
      | Some (r', (f', gs')) \<Rightarrow> Some (r', (f', gs' @ g' # drop (Suc i) fs)))"
  proof -
    fix g' r
    have "i \<le> length (fs[i := g'])" using i by simp
    from Suc.IH [OF this, of "[r]"] show "invoke_composition_impl i c (f, fs[i := g']) [r] =
     (case right_to_left_fold c f (take i fs) [r] of None \<Rightarrow> None
      | Some (r', (f', gs')) \<Rightarrow> Some (r', (f', gs' @ g' # drop (Suc i) fs)))"
      unfolding dr by simp
  qed
  show ?case
    using i by (simp add: tk right_to_left_fold_append ih split: option.splits)
qed

lemma invoke_Composed:
  "invoke c (Composed f fs) args =
     (case right_to_left_fold c f fs args of None \<Rightarrow> None
      | Some (r, (f', fs')) \<Rightarrow> Some (r, Composed f' fs'))"
  using invoke_composition_impl_fold [of "length fs" fs c f args]
  by (simp split: option.splits)

declare invoke.simps(3) [simp del]
declare invoke_Composed [simp]

subsection \<open>The shape of a built chain\<close>

lemma to_function_tuple_leaf: "\<not> is_composed_v f \<Longrightarrow> to_function_tuple f = (f, [])"
  by (cases f) simp_all

lemma to_function_tuple_size:
  "tuple_size (to_function_tuple f) = (if is_composed_v f then chain_length f else 1)"
  by (cases f) simp_all

lemma comp_variadic_elements:
  "tuple_list (to_function_tuple (comp_fns f (g # gs))) =
     concat (map (\<lambda>x. tuple_list (to_function_tuple x)) (f # g # gs))"
  by (cases "to_function_tuple f"; cases "to_function_tuple g") (simp add: comp_def)

lemma comp_pair_length:
  "chain_length (comp_fns f [g]) =
     tuple_size (to_function_tuple f) + tuple_size (to_function_tuple g)"
  by (cases "to_function_tuple f"; cases "to_function_tuple g") simp

lemma flat_elements:
  "flat f \<Longrightarrow> list_all (\<lambda>g. \<not> is_composed_v g) (tuple_list (to_function_tuple f))"
  by (cases f) simp_all

lemma comp_pair_flat: "flat f \<Longrightarrow> flat g \<Longrightarrow> flat (comp_fns f [g])"
proof -
  assume f: "flat f" and g: "flat g"
  obtain f0 fs where tf: "to_function_tuple f = (f0, fs)" by (cases "to_function_tuple f")
  obtain g0 gs where tg: "to_function_tuple g = (g0, gs)" by (cases "to_function_tuple g")
  from flat_elements [OF f] flat_elements [OF g] tf tg show ?thesis by simp
qed

lemma comp_regroup:
  "comp_fns (comp_fns f [g]) [h] = comp_fns f [g, h]"
  "comp_fns f [comp_fns g [h]] = comp_fns f [g, h]"
  by (cases "to_function_tuple f"; cases "to_function_tuple g"; cases "to_function_tuple h";
      simp)+

subsection \<open>A chain of two callables, on expressions\<close>

lemma bind_all_refs: "bind_all xs s = (refs, s') \<Longrightarrow> bind_all refs s' = (refs, s')"
proof (induction xs arbitrary: s refs s')
  case Nil
  then show ?case by simp
next
  case (Cons x xs)
  obtain k a s1 where b: "bind_forwarding x s = ((k, a), s1)"
    by (cases "bind_forwarding x s") auto
  obtain rs s2 where r: "bind_all xs s1 = (rs, s2)"
    by (cases "bind_all xs s1") auto
  from Cons.prems b r have "refs = Ref k a # rs" and "s' = s2" by simp_all
  with Cons.IH [OF r] show ?case by simp
qed

lemma compat_invoke_bound:
  "bind_all xs (fst m) = (refs, s') \<Longrightarrow>
   compat_invoke f c refs (s', snd m) = compat_invoke f c xs m"
  by (simp add: compat_invoke_def bind_all_refs)

lemma compat_invoke_ref [simp]: "compat_invoke f c [Ref k a] m = f c [Ref k a] m"
  by (simp add: compat_invoke_def)

lemma composed_call_pair:
  "composed_call (f, [g]) c xs m =
     (case compat_invoke g c xs m of None \<Rightarrow> None
      | Some (r, (s1, d1)) \<Rightarrow>
         (case bind_forwarding r s1 of
            ((k, a), s2) \<Rightarrow>
              (case f c [Ref k a] (s2, d1) of None \<Rightarrow> None
               | Some (r', (s3, d3)) \<Rightarrow>
                   Some (r', (s3, case r of Prvalue v \<Rightarrow> a # d3 | Ref k' a' \<Rightarrow> d3)))))"
proof -
  obtain refs s' where b: "bind_all xs (fst m) = (refs, s')"
    by (cases "bind_all xs (fst m)") auto
  show ?thesis
    unfolding composed_call_def invoke_composition_expr_def b
    by (simp add: compat_invoke_bound [OF b] split: option.splits prod.splits)
qed

lemma composed_call_pair_expression:
  "map_option (\<lambda>(r, (s, d)). (r, s)) (composed_call (f, [g]) c xs m) =
   map_option (\<lambda>(r, (s, d)). (r, s)) (nested_call f g c xs m)"
  unfolding composed_call_pair nested_call_def
  by (auto split: option.splits prod.splits)

lemma composed_call_pair_value:
  assumes "returns_by_value f \<or> returns_reference g"
  shows "result_value (composed_call (f, [g]) c xs m) = result_value (nested_call f g c xs m)"
proof (cases "compat_invoke g c xs m")
  case None
  then show ?thesis by (simp add: composed_call_pair nested_call_def)
next
  case (Some p)
  then obtain r s1 d1 where g: "compat_invoke g c xs m = Some (r, (s1, d1))"
    by (cases p) auto
  obtain k a s2 where b: "bind_forwarding r s1 = ((k, a), s2)"
    by (cases "bind_forwarding r s1") auto
  show ?thesis
  proof (cases "f c [Ref k a] (s2, d1)")
    case None
    with g b show ?thesis by (simp add: composed_call_pair nested_call_def)
  next
    case (Some q)
    then obtain r' s3 d3 where f: "f c [Ref k a] (s2, d1) = Some (r', (s3, d3))"
      by (cases q) auto
    from assms show ?thesis
    proof
      assume "returns_by_value f"
      with f obtain v where "r' = Prvalue v"
        unfolding returns_by_value_def by blast
      with g b f show ?thesis
        by (simp add: composed_call_pair nested_call_def result_value_def)
    next
      assume "returns_reference g"
      moreover from g obtain refs s0 where "g c refs (s0, snd m) = Some (r, (s1, d1))"
        by (auto simp: compat_invoke_def split: prod.splits)
      ultimately obtain k' a' where "r = Ref k' a'"
        unfolding returns_reference_def by blast
      with g b f show ?thesis
        by (simp add: composed_call_pair nested_call_def result_value_def)
    qed
  qed
qed

lemma returns_by_value_by_value: "returns_by_value (by_value h)"
  by (auto simp: returns_by_value_def by_value_def split: list.splits option.splits)

lemma returns_reference_constantly_fn: "returns_reference (constantly_fn this)"
proof -
  have "\<And>c xs. \<exists>k a. (constantly_t_call c this xs :: 'a expr) = Ref k a"
    by (case_tac c) simp_all
  then show ?thesis
    by (auto simp: returns_reference_def constantly_fn_def)
qed

lemma identity_fn_right:
  "composed_call (f, [identity_fn]) c [x] m = compat_invoke f c [x] m"
  by (cases x; cases m)
     (simp_all add: composed_call_pair compat_invoke_def identity_fn_def identity_t_call_def
       materialize_def split: option.splits prod.splits)

lemma identity_fn_left:
  "composed_call (identity_fn, [f]) c xs m =
     (case compat_invoke f c xs m of None \<Rightarrow> None
      | Some (r, (s1, d1)) \<Rightarrow>
         (case r of
            Ref k a \<Rightarrow> Some (Ref k a, (s1, d1))
          | Prvalue v \<Rightarrow> Some (Ref Rvalue (length s1), (s1 @ [v], length s1 # d1))))"
  by (auto simp: composed_call_pair identity_fn_def identity_t_call_def materialize_def
      split: option.splits prod.splits expr.splits)

lemma identity_fn_left_reference:
  assumes "returns_reference f"
  shows "composed_call (identity_fn, [f]) c xs m = compat_invoke f c xs m"
proof (cases "compat_invoke f c xs m")
  case None
  then show ?thesis by (simp add: identity_fn_left)
next
  case (Some p)
  then obtain r s1 d1 where g: "compat_invoke f c xs m = Some (r, (s1, d1))"
    by (cases p) auto
  then obtain refs s0 where "f c refs (s0, snd m) = Some (r, (s1, d1))"
    by (auto simp: compat_invoke_def split: prod.splits)
  with assms obtain k a where "r = Ref k a"
    unfolding returns_reference_def by blast
  with g show ?thesis by (simp add: identity_fn_left)
qed

subsection \<open>The two levels agree on values\<close>

text \<open>
  For functions that take and return values, the result of a chain on expressions is the
  prvalue of the value that \<open>invoke\<close> gives for the chain of the same functions.
\<close>

lemma invoke_unary: "invoke c (unary h) [v] = Some (h v, unary h)"
  by (simp add: unary_def)

lemma by_value_one:
  "by_value h c [x] m =
     (case read x m of None \<Rightarrow> None | Some v \<Rightarrow> Some (Prvalue (h v), m))"
  by (simp add: by_value_def)

lemma compat_invoke_by_value:
  assumes "read x (s, d) = Some v" and "\<forall>a\<in>set d. a < length s"
  shows "\<exists>s0. compat_invoke (by_value h) c [x] (s, d) = Some (Prvalue (h v), (s0, d))
           \<and> length s \<le> length s0"
proof (cases x)
  case (Ref k a)
  with assms show ?thesis by (simp add: compat_invoke_def by_value_one)
next
  case (Prvalue w)
  with assms have "read (Ref Rvalue (length s)) (s @ [w], d) = Some v"
    by (auto simp: lookup_def)
  with Prvalue show ?thesis by (simp add: compat_invoke_def by_value_one materialize_def)
qed

lemma invoke_composition_impl_expr_by_value:
  "i \<le> length hs \<Longrightarrow> read x (s, d) = Some v \<Longrightarrow> \<forall>a\<in>set d. a < length s \<Longrightarrow>
   map_option fst (invoke_composition_impl_expr i c (by_value h0, map by_value hs) [x] (s, d)) =
   map_option Prvalue
     (map_option fst (invoke_composition_impl i c (unary h0, map unary hs) [v]))"
proof (induction i arbitrary: x s d v)
  case 0
  from compat_invoke_by_value [OF 0(2,3), of h0 c] show ?case
    by (auto simp: invoke_unary)
next
  case (Suc i)
  then have i: "i < length hs" by simp
  let ?w = "(hs ! i) v"
  from compat_invoke_by_value [OF Suc.prems(2,3), of "hs ! i" c] obtain s0 where
    stage: "compat_invoke (by_value (hs ! i)) c [x] (s, d) = Some (Prvalue ?w, (s0, d))"
    and len0: "length s \<le> length s0"
    by blast
  have rd: "read (Ref Rvalue (length s0)) (s0 @ [?w], d) = Some ?w"
    using Suc.prems(3) len0 by (auto simp: lookup_def)
  have dd: "\<forall>a\<in>set d. a < length (s0 @ [?w])"
    using Suc.prems(3) len0 by auto
  have "i \<le> length hs" using i by simp
  note ih = Suc.IH [OF this rd dd]
  have upd: "(map unary hs)[i := unary (hs ! i)] = (map unary hs :: ('s, 'a) callable list)"
    using i by (simp add: list_update_same_conv)
  show ?case
    using i ih
    by (auto simp: stage invoke_unary materialize_def upd split: option.splits prod.splits)
qed

lemma invoke_Composed_value:
  "map_option fst (invoke c (Composed f fs) args) =
   map_option fst (invoke_composition_impl (length fs) c (f, fs) args)"
  by (simp del: invoke_Composed add: invoke.simps(3) split: option.splits prod.splits)

lemma composed_call_by_value:
  assumes "read x (s, []) = Some v"
  shows "map_option fst (composed_call (by_value h0, map by_value hs) c [x] (s, [])) =
   map_option Prvalue (map_option fst (invoke c (Composed (unary h0) (map unary hs)) [v]))"
proof -
  obtain k a s' where b: "bind_forwarding x s = ((k, a), s')"
    by (cases "bind_forwarding x s") auto
  have rd: "read (Ref k a) (s', []) = Some v"
    using assms b by (cases x) (auto simp: lookup_def materialize_def split: if_splits)
  have "map_option fst (composed_call (by_value h0, map by_value hs) c [x] (s, [])) =
        map_option fst
          (invoke_composition_impl_expr (length hs) c (by_value h0, map by_value hs)
             [Ref k a] (s', []))"
    using b by (simp add: composed_call_def invoke_composition_expr_def)
  also have "\<dots> = map_option Prvalue
     (map_option fst (invoke_composition_impl (length hs) c (unary h0, map unary hs) [v]))"
    by (rule invoke_composition_impl_expr_by_value [OF le_refl rd]) simp
  finally show ?thesis
    by (simp only: invoke_Composed_value length_map)
qed

subsection \<open>Right-to-left order\<close>

text \<open>
  C1, as the claim states it, fails: the composition of \<open>identity\<close> and a function that
  returns by value does not give what \<open>identity(g(x))\<close> gives. \<open>g\<close> is invoked on 3
  and its result 6 is put into a temporary of the return statement of
  \<open>invoke_composition_impl<1>::apply\<close>; \<open>identity\<close> returns an rvalue reference to that
  temporary, and this reference is returned when the temporary has been destroyed. In
  \<open>identity(g(x))\<close> the temporary is the caller's, and the reference reads 6.
\<close>

theorem composition_result_counterexample:
  "composed_call (identity_fn, [by_value (\<lambda>y. y * 2)]) Lvalue [Prvalue (3 :: nat)] ([], [])
     = Some (Ref Rvalue 1, ([3, 6], [1]))
   \<and> result_value
        (composed_call (identity_fn, [by_value (\<lambda>y. y * 2)]) Lvalue [Prvalue (3 :: nat)] ([], []))
     = None
   \<and> result_value
        (nested_call identity_fn (by_value (\<lambda>y. y * 2)) Lvalue [Prvalue (3 :: nat)] ([], []))
     = Some 6"
  by (simp add: composed_call_pair nested_call_def compat_invoke_def by_value_def identity_fn_def
      identity_t_call_def result_value_def materialize_def lookup_def)

text \<open>
  C1, amended. The composition built from \<open>f\<close> and \<open>g\<close> holds \<open>f\<close> at index 0 and \<open>g\<close>
  at the last index. Invoked, it invokes \<open>g\<close> first, on the original arguments, and \<open>f\<close>
  last, on the one result of \<open>g\<close>, and returns what \<open>f\<close> returns: the same expression, in
  the same store, as \<open>f(g(x))\<close>. A temporary that holds a prvalue result of \<open>g\<close> is
  destroyed as the invocation returns; so the value of the result is that of \<open>f(g(x))\<close>
  whenever \<open>f\<close> returns by value or \<open>g\<close> returns a reference.
\<close>

theorem composition_right_to_left:
  "to_function_tuple (comp_fns (Fn p) [Fn q]) = (Fn p, [Fn q])
   \<and> get (tuple_size (f, [g]) - 1) (f, [g]) = Some g \<and> get 0 (f, [g]) = Some f
   \<and> composed_call (f, [g]) c xs m =
       (case compat_invoke g c xs m of None \<Rightarrow> None
        | Some (r, (s1, d1)) \<Rightarrow>
           (case bind_forwarding r s1 of
              ((k, a), s2) \<Rightarrow>
                (case compat_invoke f c [Ref k a] (s2, d1) of None \<Rightarrow> None
                 | Some (r', (s3, d3)) \<Rightarrow>
                     Some (r', (s3, case r of Prvalue v \<Rightarrow> a # d3 | Ref k' a' \<Rightarrow> d3)))))
   \<and> map_option (\<lambda>(r, (s, d)). (r, s)) (composed_call (f, [g]) c xs m) =
       map_option (\<lambda>(r, (s, d)). (r, s)) (nested_call f g c xs m)
   \<and> (returns_by_value f \<or> returns_reference g \<longrightarrow>
        result_value (composed_call (f, [g]) c xs m) = result_value (nested_call f g c xs m))"
proof -
  have order: "composed_call (f, [g]) c xs m =
       (case compat_invoke g c xs m of None \<Rightarrow> None
        | Some (r, (s1, d1)) \<Rightarrow>
           (case bind_forwarding r s1 of
              ((k, a), s2) \<Rightarrow>
                (case compat_invoke f c [Ref k a] (s2, d1) of None \<Rightarrow> None
                 | Some (r', (s3, d3)) \<Rightarrow>
                     Some (r', (s3, case r of Prvalue v \<Rightarrow> a # d3 | Ref k' a' \<Rightarrow> d3)))))"
    unfolding composed_call_pair by (auto split: option.splits prod.splits)
  have same: "map_option (\<lambda>(r, (s, d)). (r, s)) (composed_call (f, [g]) c xs m) =
       map_option (\<lambda>(r, (s, d)). (r, s)) (nested_call f g c xs m)"
    by (rule composed_call_pair_expression)
  have val: "returns_by_value f \<or> returns_reference g \<longrightarrow>
        result_value (composed_call (f, [g]) c xs m) = result_value (nested_call f g c xs m)"
    using composed_call_pair_value [of f g c xs m] by blast
  have built: "to_function_tuple (comp_fns (Fn p) [Fn q]) = (Fn p, [Fn q])
     \<and> get (tuple_size (f, [g]) - 1) (f, [g]) = Some g \<and> get 0 (f, [g]) = Some f"
    by simp
  from built order same val show ?thesis by blast
qed

text \<open>
  The example of the specification, \<open>f = \<lambda>y. y + 1\<close>, \<open>g = \<lambda>y. y * 2\<close>, \<open>x = 3\<close>: both
  return by value, and the composition returns 7.
\<close>

theorem composition_right_to_left_witness:
  "returns_by_value (by_value (\<lambda>y. y + 1 :: nat))
   \<and> composed_call (by_value (\<lambda>y. y + 1), [by_value (\<lambda>y. y * 2)]) Lvalue [Prvalue (3 :: nat)]
        ([], []) = Some (Prvalue 7, ([3, 6], [1]))
   \<and> result_value
        (composed_call (by_value (\<lambda>y. y + 1), [by_value (\<lambda>y. y * 2)]) Lvalue
           [Prvalue (3 :: nat)] ([], [])) = Some 7
   \<and> result_value
        (nested_call (by_value (\<lambda>y. y + 1)) (by_value (\<lambda>y. y * 2)) Lvalue
           [Prvalue (3 :: nat)] ([], [])) = Some 7"
proof -
  have hyp: "returns_by_value (by_value (\<lambda>y. y + 1 :: nat))"
    by (rule returns_by_value_by_value)
  have nested: "result_value
        (nested_call (by_value (\<lambda>y. y + 1)) (by_value (\<lambda>y. y * 2)) Lvalue
           [Prvalue (3 :: nat)] ([], [])) = Some 7"
    by (simp add: nested_call_def compat_invoke_def by_value_def result_value_def
        materialize_def lookup_def)
  from composition_right_to_left [of _ _ "by_value (\<lambda>y. y + 1 :: nat)" "by_value (\<lambda>y. y * 2)"
      Lvalue "[Prvalue 3]" "([], [])"] hyp nested
  show ?thesis
    by (simp add: compat_invoke_def by_value_def result_value_def materialize_def lookup_def)
qed

subsection \<open>Flattening\<close>

text \<open>
  C2. The one-argument overload of \<open>comp\<close> does not unpack its argument: given the chain
  \<open>comp(f, g)\<close> it returns a chain of one element, and that element is the chain of
  \<open>f\<close> and \<open>g\<close>. The variadic overload unpacks the same argument (lemma
  \<open>comp_variadic_elements\<close>).
\<close>

theorem comp_single_chain_nested:
  "comp_fns (comp_fns (Fn p) [Fn q]) [] = Composed (Composed (Fn p) [Fn q]) []
   \<and> chain_length (comp_fns (comp_fns (Fn p) [Fn q]) []) = 1
   \<and> \<not> flat (comp_fns (comp_fns (Fn p) [Fn q]) [])
   \<and> get 0 (to_function_tuple (comp_fns (comp_fns (Fn p) [Fn q]) [])) =
       Some (comp_fns (Fn p) [Fn q])
   \<and> is_composed_v (comp_fns (Fn p) [Fn q])"
  by simp

subsection \<open>Associativity\<close>

text \<open>
  C3. \<open>comp(comp(f, g), h)\<close>, \<open>comp(f, comp(g, h))\<close> and \<open>comp(f, g, h)\<close> are the same
  chain, and so return the same result on every argument list and in every category. For
  \<open>f\<close>, \<open>g\<close>, \<open>h\<close> that are not chains it is the flat chain of the three elements \<open>f\<close>,
  \<open>g\<close>, \<open>h\<close>.
\<close>

theorem comp_associative:
  "comp_fns (comp_fns f [g]) [h] = comp_fns f [g, h]
   \<and> comp_fns f [comp_fns g [h]] = comp_fns f [g, h]
   \<and> invoke c (comp_fns (comp_fns f [g]) [h]) args = invoke c (comp_fns f [g, h]) args
   \<and> invoke c (comp_fns f [comp_fns g [h]]) args = invoke c (comp_fns f [g, h]) args
   \<and> (\<not> is_composed_v f \<and> \<not> is_composed_v g \<and> \<not> is_composed_v h \<longrightarrow>
        comp_fns f [g, h] = Composed f [g, h]
        \<and> chain_length (comp_fns f [g, h]) = 3
        \<and> flat (comp_fns f [g, h]))"
proof -
  have left: "comp_fns (comp_fns f [g]) [h] = comp_fns f [g, h]"
    by (rule comp_regroup(1))
  have right: "comp_fns f [comp_fns g [h]] = comp_fns f [g, h]"
    by (rule comp_regroup(2))
  have three: "\<not> is_composed_v f \<and> \<not> is_composed_v g \<and> \<not> is_composed_v h \<longrightarrow>
        comp_fns f [g, h] = Composed f [g, h]
        \<and> chain_length (comp_fns f [g, h]) = 3
        \<and> flat (comp_fns f [g, h])"
    by (simp add: to_function_tuple_leaf)
  show ?thesis
    unfolding left right using three by simp
qed

theorem comp_associative_witness:
  "\<not> is_composed_v (unary (\<lambda>y. y + 1) :: (unit, int) callable)
   \<and> comp_fns (comp_fns (unary (\<lambda>y. y + 1)) [unary (\<lambda>y. y * 2)]) [unary (\<lambda>y. y - 5)]
       = (Composed (unary (\<lambda>y. y + 1)) [unary (\<lambda>y. y * 2), unary (\<lambda>y. y - 5)]
           :: (unit, int) callable)
   \<and> comp_fns (unary (\<lambda>y. y + 1)) [comp_fns (unary (\<lambda>y. y * 2)) [unary (\<lambda>y. y - 5)]]
       = (Composed (unary (\<lambda>y. y + 1)) [unary (\<lambda>y. y * 2), unary (\<lambda>y. y - 5)]
           :: (unit, int) callable)
   \<and> chain_length (comp_fns (unary (\<lambda>y. y + 1)) [unary (\<lambda>y. y * 2), unary (\<lambda>y. y - 5)]
           :: (unit, int) callable) = 3
   \<and> map_option fst (invoke Lvalue
        (comp_fns (comp_fns (unary (\<lambda>y. y + 1)) [unary (\<lambda>y. y * 2)]) [unary (\<lambda>y. y - 5)]
           :: (unit, int) callable) [8]) = Some 7"
  using comp_associative [of "unary (\<lambda>y. y + 1) :: (unit, int) callable"
      "unary (\<lambda>y. y * 2)" "unary (\<lambda>y. y - 5)" Lvalue "[8]"]
  by (simp add: unary_def)

subsection \<open>One value threads outward\<close>

text \<open>
  C4. Invoking the tuple of a chain is the right-to-left fold: the element at the last
  index is invoked on the caller's argument list, and every element before it is invoked
  on exactly one argument, the result of the element invoked just before.
\<close>

theorem invoke_composition_threads_one_value:
  "invoke_composition c (f, fs) args = right_to_left_fold c f fs args"
  by (simp add: invoke_composition_def invoke_composition_impl_fold split: option.splits)

text \<open>What the three elements of a chain of recorders receive on the arguments 1 and 2.\<close>

lemma invoke_composition_recorders:
  "invoke_composition Lvalue (recorder [], [recorder [], recorder []]) [1, 2] =
     Some (3, (recorder [[3]], [recorder [[3]], recorder [[1, 2]]]))"
  by (simp add: invoke_composition_def recorder_def numeral_2_eq_2)

subsection \<open>Invocation and the stored callables\<close>








subsection \<open>The chain operator\<close>

text \<open>
  C6. When one of the operands is a chain, \<open>lhs | rhs\<close> is \<open>comp(lhs, rhs)\<close>: the
  chain of the elements of \<open>lhs\<close> followed by those of \<open>rhs\<close>, flat when the operands
  are. When neither operand is a chain the operator is not there.
\<close>

theorem operator_pipe_is_comp:
  "(is_composed_v lhs \<or> is_composed_v rhs \<longrightarrow>
      operator_pipe lhs rhs = Some (comp_fns lhs [rhs])
      \<and> to_function_tuple (comp_fns lhs [rhs]) =
          tuple_cat (to_function_tuple lhs) [to_function_tuple rhs]
      \<and> chain_length (comp_fns lhs [rhs]) =
          tuple_size (to_function_tuple lhs) + tuple_size (to_function_tuple rhs)
      \<and> (flat lhs \<and> flat rhs \<longrightarrow> flat (comp_fns lhs [rhs])))
   \<and> (\<not> is_composed_v lhs \<and> \<not> is_composed_v rhs \<longrightarrow> operator_pipe lhs rhs = None)"
proof -
  have "to_function_tuple (comp_fns lhs [rhs]) =
          tuple_cat (to_function_tuple lhs) [to_function_tuple rhs]"
    by (cases "to_function_tuple lhs"; cases "to_function_tuple rhs") simp
  then show ?thesis
    using comp_pair_length [of lhs rhs] comp_pair_flat [of lhs rhs]
    by (simp add: operator_pipe_def)
qed

theorem operator_pipe_is_comp_witness:
  "is_composed_v (comp_fns (unary (\<lambda>y. y + 1)) [] :: (unit, int) callable)
   \<and> operator_pipe (comp_fns (unary (\<lambda>y. y + 1)) []) (unary (\<lambda>y. y * 2)) =
       Some (Composed (unary (\<lambda>y. y + 1)) [unary (\<lambda>y. y * 2)] :: (unit, int) callable)
   \<and> operator_pipe (unary (\<lambda>y. y * 2)) (comp_fns (unary (\<lambda>y. y + 1)) []) =
       Some (Composed (unary (\<lambda>y. y * 2)) [unary (\<lambda>y. y + 1)] :: (unit, int) callable)
   \<and> operator_pipe (unary (\<lambda>y. y + 1) :: (unit, int) callable) (unary (\<lambda>y. y * 2)) = None"
  using operator_pipe_is_comp [of "comp_fns (unary (\<lambda>y. y + 1)) [] :: (unit, int) callable"
      "unary (\<lambda>y. y * 2)"]
    operator_pipe_is_comp [of "unary (\<lambda>y. y * 2) :: (unit, int) callable"
      "comp_fns (unary (\<lambda>y. y + 1)) []"]
    operator_pipe_is_comp [of "unary (\<lambda>y. y + 1) :: (unit, int) callable" "unary (\<lambda>y. y * 2)"]
  by (simp add: unary_def)

subsection \<open>Identity as a unit\<close>

text \<open>
  C7, as the claim states it, fails on the left: for a function \<open>f\<close> that returns by
  value, \<open>comp(identity, f)\<close> on 4 does not yield what \<open>f\<close> on 4 yields, the value 8,
  but an rvalue reference to the temporary that held the 8, destroyed as the invocation
  returns.
\<close>

theorem identity_left_unit_counterexample:
  "result_value (compat_invoke (by_value (\<lambda>y. y + y)) Lvalue [Prvalue (4 :: nat)] ([], []))
     = Some 8
   \<and> composed_call (identity_fn, [by_value (\<lambda>y. y + y)]) Lvalue [Prvalue (4 :: nat)] ([], [])
     = Some (Ref Rvalue 1, ([4, 8], [1]))
   \<and> result_value
        (composed_call (identity_fn, [by_value (\<lambda>y. y + y)]) Lvalue [Prvalue (4 :: nat)] ([], []))
     = None
   \<and> composed_call (by_value (\<lambda>y. y + y), [identity_fn]) Lvalue [Prvalue (4 :: nat)] ([], [])
     = Some (Prvalue 8, ([4], []))"
  by (simp add: composed_call_pair compat_invoke_def by_value_def identity_fn_def
      identity_t_call_def result_value_def materialize_def lookup_def)

text \<open>
  C7, amended. \<open>comp(f, identity)\<close> on one argument \<open>x\<close> yields what \<open>f\<close> on \<open>x\<close>
  yields, for every \<open>f\<close>. \<open>comp(identity, f)\<close> yields what \<open>f\<close> yields whenever \<open>f\<close>
  returns a reference: it is that reference. When \<open>f\<close> returns by value,
  \<open>comp(identity, f)\<close> yields an rvalue reference to the temporary that held the result
  of \<open>f\<close>, which is destroyed as the invocation returns.
\<close>

theorem identity_unit_by_reference:
  "composed_call (f, [identity_fn]) c [x] m = compat_invoke f c [x] m
   \<and> (returns_reference f \<longrightarrow>
        composed_call (identity_fn, [f]) c xs m = compat_invoke f c xs m)
   \<and> composed_call (identity_fn, [f]) c xs m =
       (case compat_invoke f c xs m of None \<Rightarrow> None
        | Some (r, (s1, d1)) \<Rightarrow>
           (case r of
              Ref k a \<Rightarrow> Some (Ref k a, (s1, d1))
            | Prvalue v \<Rightarrow> Some (Ref Rvalue (length s1), (s1 @ [v], length s1 # d1))))"
proof -
  have right: "composed_call (f, [identity_fn]) c [x] m = compat_invoke f c [x] m"
    by (rule identity_fn_right)
  have left: "returns_reference f \<longrightarrow>
        composed_call (identity_fn, [f]) c xs m = compat_invoke f c xs m"
    using identity_fn_left_reference [of f c xs m] by blast
  have both: "composed_call (identity_fn, [f]) c xs m =
       (case compat_invoke f c xs m of None \<Rightarrow> None
        | Some (r, (s1, d1)) \<Rightarrow>
           (case r of
              Ref k a \<Rightarrow> Some (Ref k a, (s1, d1))
            | Prvalue v \<Rightarrow> Some (Ref Rvalue (length s1), (s1 @ [v], length s1 # d1))))"
    by (rule identity_fn_left)
  from right left both show ?thesis by blast
qed

theorem identity_unit_by_reference_witness:
  "returns_reference (constantly_fn 0 :: nat object_call)
   \<and> compat_invoke (constantly_fn 0) Lvalue [] ([42 :: nat], []) = Some (Ref Lvalue 0, ([42], []))
   \<and> composed_call (identity_fn, [constantly_fn 0]) Lvalue [] ([42 :: nat], [])
       = Some (Ref Lvalue 0, ([42], []))
   \<and> result_value (composed_call (identity_fn, [constantly_fn 0]) Lvalue [] ([42 :: nat], []))
       = Some 42
   \<and> composed_call (constantly_fn 0, [identity_fn]) Lvalue [Prvalue 7] ([42 :: nat], [])
       = Some (Ref Lvalue 0, ([42, 7], []))"
proof -
  have hyp: "returns_reference (constantly_fn 0 :: nat object_call)"
    by (rule returns_reference_constantly_fn)
  have direct: "compat_invoke (constantly_fn 0) Lvalue [] ([42 :: nat], [])
      = Some (Ref Lvalue 0, ([42], []))"
    by (simp add: compat_invoke_def constantly_fn_def)
  have direct1: "compat_invoke (constantly_fn 0) Lvalue [Prvalue 7] ([42 :: nat], [])
      = Some (Ref Lvalue 0, ([42, 7], []))"
    by (simp add: compat_invoke_def constantly_fn_def materialize_def)
  from identity_unit_by_reference [of "constantly_fn 0 :: nat object_call" Lvalue "Prvalue 7"
      "([42], [])" "[]"] hyp direct direct1
  show ?thesis
    by (simp add: result_value_def lookup_def)
qed

subsection \<open>Composing one callable\<close>

text \<open>
  C8. For a callable \<open>f\<close> that is not a chain, \<open>comp(f)\<close> is a chain of length one
  holding \<open>f\<close>; invoked, it returns what \<open>f\<close> returns; and composed further with any
  \<open>g\<close> it gives the chain that \<open>comp(f, g)\<close> gives, so the two behave alike.
\<close>

theorem comp_single_callable:
  assumes "\<not> is_composed_v f"
  shows "comp_fns f [] = Composed f []
       \<and> is_composed_v (comp_fns f []) \<and> chain_length (comp_fns f []) = 1 \<and> flat (comp_fns f [])
       \<and> invoke c (comp_fns f []) args =
           (case invoke c f args of None \<Rightarrow> None | Some (r, f') \<Rightarrow> Some (r, comp_fns f' []))
       \<and> comp_fns (comp_fns f []) [g] = comp_fns f [g]
       \<and> invoke c (comp_fns (comp_fns f []) [g]) args = invoke c (comp_fns f [g]) args"
proof -
  have nest: "comp_fns (comp_fns f []) [g] = comp_fns f [g]"
    using assms by (cases "to_function_tuple g") (simp add: to_function_tuple_leaf)
  have call: "invoke c (comp_fns f []) args =
           (case invoke c f args of None \<Rightarrow> None | Some (r, f') \<Rightarrow> Some (r, comp_fns f' []))"
    by (simp split: option.splits)
  show ?thesis
    unfolding nest call using assms by simp
qed

theorem comp_single_callable_witness:
  "\<not> is_composed_v (unary (\<lambda>y. y + 1) :: (unit, int) callable)
   \<and> comp_fns (unary (\<lambda>y. y + 1)) [] = (Composed (unary (\<lambda>y. y + 1)) [] :: (unit, int) callable)
   \<and> invoke Lvalue (comp_fns (unary (\<lambda>y. y + 1)) [] :: (unit, int) callable) [6] =
       Some (7, comp_fns (unary (\<lambda>y. y + 1)) [])
   \<and> comp_fns (comp_fns (unary (\<lambda>y. y + 1)) []) [unary (\<lambda>y. y * 2)] =
       (Composed (unary (\<lambda>y. y + 1)) [unary (\<lambda>y. y * 2)] :: (unit, int) callable)
   \<and> map_option fst (invoke Lvalue
        (comp_fns (comp_fns (unary (\<lambda>y. y + 1)) []) [unary (\<lambda>y. y * 2)] :: (unit, int) callable)
        [3]) = Some 7"
  using comp_single_callable [of "unary (\<lambda>y. y + 1) :: (unit, int) callable" Lvalue "[6]"
      "unary (\<lambda>y. y * 2)"]
    comp_single_callable [of "unary (\<lambda>y. y + 1) :: (unit, int) callable" Lvalue "[3]"
      "unary (\<lambda>y. y * 2)"]
  by (simp add: unary_def)

subsection \<open>References returned by the primitive callables\<close>

lemma constantly_t_call_ref: "constantly_t_call c this args = Ref c this"
  by (cases c) simp_all

lemma bind_forwarding_value:
  "bind_forwarding e s = ((c, a), s') \<Longrightarrow> lookup s' a = value_of e s \<and> length s \<le> length s'"
  by (cases e) (auto simp: lookup_def materialize_def)

lemma init_from_forward_value:
  assumes "value_of e s = Some v"
  shows "\<exists>s'. init_from_forward moved_from e s = Some (v, s') \<and> length s \<le> length s'
           \<and> (\<forall>c a. e = Ref c a \<and> c \<noteq> Rvalue \<longrightarrow> s' = s)"
proof -
  obtain c a s1 where b: "bind_forwarding e s = ((c, a), s1)"
    by (cases "bind_forwarding e s") auto
  from bind_forwarding_value [OF b] assms have "lookup s1 a = Some v" and "length s \<le> length s1"
    by simp_all
  with b show ?thesis by (cases c; cases e) (auto simp: init_from_forward_def)
qed

text \<open>
  The value that the result of \<open>identity\<close> refers to is the value of its argument.
\<close>

lemma identity_t_call_value:
  "value_of (fst (identity_t_call e s)) (snd (identity_t_call e s)) = value_of e s"
  by (cases e) (simp_all add: identity_t_call_def lookup_def materialize_def)

text \<open>
  C9. \<open>constantly\<close> of an argument that holds \<open>v\<close> returns an object whose member holds
  \<open>v\<close>, copied from an lvalue argument (which is left as it was). Wherever that object is put (at a new address \<open>this\<close>, outside what the caller had
  stored), calling it with any argument list \<open>args\<close> returns a reference to the captured
  value in the category of the call: a mutable reference for a mutable lvalue (an
  assignment through it changes what every later call returns), a reference to const for a
  const lvalue (no assignment through it), an rvalue reference (\<open>std::move(value)\<close>) for an
  rvalue, which the caller may move from.
\<close>

theorem constantly_returns_captured:
  "value_of e s = Some v \<longrightarrow>
     (\<exists>s1. constantly moved_from e s = Some (\<lparr>value' = v\<rparr>, s1)
        \<and> length s \<le> length s1
        \<and> (\<forall>c a. e = Ref c a \<and> c \<noteq> Rvalue \<longrightarrow> s1 = s)
        \<and> materialize v s1 = (length s1, s1 @ [v])
        \<and> (\<forall>c. constantly_t_call c (length s1) args = Ref c (length s1)
              \<and> value_of (constantly_t_call c (length s1) args) (s1 @ [v]) = Some v)
        \<and> assign_through (constantly_t_call Lvalue (length s1) args) w (s1 @ [v])
            = Some (s1 @ [w])
        \<and> (\<forall>c. value_of (constantly_t_call c (length s1) args) (s1 @ [w]) = Some w)
        \<and> assign_through (constantly_t_call ConstLvalue (length s1) args) w (s1 @ [v]) = None)"
proof
  assume "value_of e s = Some v"
  from init_from_forward_value [OF this, of moved_from] obtain s1 where
    k: "constantly moved_from e s = Some (\<lparr>value' = v\<rparr>, s1)" and len: "length s \<le> length s1"
    and same: "\<forall>c a. e = Ref c a \<and> c \<noteq> Rvalue \<longrightarrow> s1 = s"
    unfolding constantly_def by auto
  have calls: "\<And>u. \<forall>c. constantly_t_call c (length s1) args = Ref c (length s1)
              \<and> value_of (constantly_t_call c (length s1) args) (s1 @ [u]) = Some u"
    by (simp add: constantly_t_call_ref lookup_def)
  have "assign_through (constantly_t_call Lvalue (length s1) args) w (s1 @ [v]) = Some (s1 @ [w])"
    by simp
  moreover have "assign_through (constantly_t_call ConstLvalue (length s1) args) w (s1 @ [v]) = None"
    by simp
  moreover have "materialize v s1 = (length s1, s1 @ [v])"
    by (simp add: materialize_def)
  ultimately show "\<exists>s1. constantly moved_from e s = Some (\<lparr>value' = v\<rparr>, s1)
        \<and> length s \<le> length s1
        \<and> (\<forall>c a. e = Ref c a \<and> c \<noteq> Rvalue \<longrightarrow> s1 = s)
        \<and> materialize v s1 = (length s1, s1 @ [v])
        \<and> (\<forall>c. constantly_t_call c (length s1) args = Ref c (length s1)
              \<and> value_of (constantly_t_call c (length s1) args) (s1 @ [v]) = Some v)
        \<and> assign_through (constantly_t_call Lvalue (length s1) args) w (s1 @ [v])
            = Some (s1 @ [w])
        \<and> (\<forall>c. value_of (constantly_t_call c (length s1) args) (s1 @ [w]) = Some w)
        \<and> assign_through (constantly_t_call ConstLvalue (length s1) args) w (s1 @ [v]) = None"
    using k len same calls [of v] calls [of w] by (intro exI [of _ s1]) auto
qed

theorem constantly_returns_captured_witness:
  "value_of (Ref Lvalue 0) [42 :: nat] = Some 42
   \<and> constantly (\<lambda>v. 0) (Ref Lvalue 0) [42 :: nat] = Some (\<lparr>value' = 42\<rparr>, [42])
   \<and> materialize 42 [42 :: nat] = (1, [42, 42])
   \<and> constantly_t_call Lvalue 1 [] = (Ref Lvalue 1 :: nat expr)
   \<and> value_of (constantly_t_call Lvalue 1 [1 :: int, 2, 3]) [42 :: nat, 42] = Some 42
   \<and> value_of (constantly_t_call ConstLvalue 1 [True]) [42 :: nat, 42] = Some 42
   \<and> value_of (constantly_t_call Rvalue 1 ([] :: unit list)) [42 :: nat, 42] = Some 42"
proof -
  have hyp: "value_of (Ref Lvalue 0) [42 :: nat] = Some 42"
    by (simp add: lookup_def)
  from constantly_returns_captured [of "Ref Lvalue 0" "[42 :: nat]" 42 "\<lambda>v. 0" "[]" 7] hyp
  have "constantly (\<lambda>v. 0) (Ref Lvalue 0) [42 :: nat] = Some (\<lparr>value' = 42\<rparr>, [42])"
    by (auto simp: constantly_def init_from_forward_def lookup_def)
  with hyp show ?thesis
    by (simp add: lookup_def materialize_def)
qed

text \<open>
  C10, as the claim states it, fails for a temporary: \<open>identity\<close> does not return the
  value of a temporary argument by value, it returns an rvalue reference to the temporary
  (\<open>identity_\<close> is the one that returns the value).
\<close>

theorem identity_temporary_counterexample:
  "identity_t_call (Prvalue (5 :: nat)) [] = (Ref Rvalue 0, [5])
   \<and> fst (identity_t_call (Prvalue (5 :: nat)) []) \<noteq> Prvalue 5
   \<and> value_of (Ref Rvalue 0) [5 :: nat] = Some 5"
  by (simp add: identity_t_call_def lookup_def materialize_def)

text \<open>
  C10, amended. \<open>identity\<close> returns a reference to the object its argument refers to, in
  the category of the argument: for an lvalue the result aliases the caller's object, and
  an assignment through the result is seen there; for a temporary the result is an rvalue
  reference to the temporary, not a value. \<open>identity_\<close>, on any argument that holds a
  value \<open>v\<close>, returns the prvalue \<open>v\<close> (copied from an lvalue argument, which is left
  as it was): it is in none of the objects of the store, and a change made through it
  leaves all of them as they are.
\<close>

theorem identity_value_category:
  "identity_t_call (Ref c a) s = (Ref c a, s)
   \<and> (a < length s \<longrightarrow>
        assign_through (fst (identity_t_call (Ref Lvalue a) s)) w s = Some (s[a := w])
        \<and> value_of (Ref Lvalue a) (s[a := w]) = Some w)
   \<and> identity_t_call (Prvalue v) s = (Ref Rvalue (length s), s @ [v])
   \<and> value_of (Ref Rvalue (length s)) (s @ [v]) = Some v
   \<and> (value_of e s = Some v \<longrightarrow>
        (\<exists>s'. identity__t_call moved_from e s = Some (Prvalue v, s')
           \<and> length s \<le> length s'
           \<and> (\<forall>c a. e = Ref c a \<and> c \<noteq> Rvalue \<longrightarrow> s' = s)
           \<and> fst (materialize v s') = length s'
           \<and> (\<exists>s''. assign_through (Prvalue v) w s' = Some s'' \<and> take (length s') s'' = s')))"
proof -
  have fwd: "identity_t_call (Ref c a) s = (Ref c a, s)"
    by (simp add: identity_t_call_def)
  have aliasing: "a < length s \<longrightarrow>
        assign_through (fst (identity_t_call (Ref Lvalue a) s)) w s = Some (s[a := w])
        \<and> value_of (Ref Lvalue a) (s[a := w]) = Some w"
    by (simp add: identity_t_call_def lookup_def)
  have temp: "identity_t_call (Prvalue v) s = (Ref Rvalue (length s), s @ [v])"
    by (simp add: identity_t_call_def materialize_def)
  have read: "value_of (Ref Rvalue (length s)) (s @ [v]) = Some v"
    by (simp add: lookup_def)
  have copy: "value_of e s = Some v \<longrightarrow>
        (\<exists>s'. identity__t_call moved_from e s = Some (Prvalue v, s')
           \<and> length s \<le> length s'
           \<and> (\<forall>c a. e = Ref c a \<and> c \<noteq> Rvalue \<longrightarrow> s' = s)
           \<and> fst (materialize v s') = length s'
           \<and> (\<exists>s''. assign_through (Prvalue v) w s' = Some s'' \<and> take (length s') s'' = s'))"
  proof
    assume "value_of e s = Some v"
    from init_from_forward_value [OF this, of moved_from] obtain s' where
      "identity__t_call moved_from e s = Some (Prvalue v, s')" and "length s \<le> length s'"
      and "\<forall>c a. e = Ref c a \<and> c \<noteq> Rvalue \<longrightarrow> s' = s"
      unfolding identity__t_call_def by auto
    then show "\<exists>s'. identity__t_call moved_from e s = Some (Prvalue v, s')
           \<and> length s \<le> length s'
           \<and> (\<forall>c a. e = Ref c a \<and> c \<noteq> Rvalue \<longrightarrow> s' = s)
           \<and> fst (materialize v s') = length s'
           \<and> (\<exists>s''. assign_through (Prvalue v) w s' = Some s'' \<and> take (length s') s'' = s')"
      by (intro exI [of _ s']) (simp add: materialize_def)
  qed
  from fwd aliasing temp read copy show ?thesis by blast
qed

theorem identity_value_category_witness:
  "(1 :: nat) < length [10, 20 :: nat]
   \<and> value_of (Ref Lvalue 1) [10, 20 :: nat] = Some 20
   \<and> identity_t_call (Ref Lvalue 1) [10, 20 :: nat] = (Ref Lvalue 1, [10, 20])
   \<and> assign_through (fst (identity_t_call (Ref Lvalue 1) [10, 20 :: nat])) 99 [10, 20]
       = Some [10, 99]
   \<and> identity__t_call (\<lambda>v. 0) (Ref Lvalue 1) [10, 20 :: nat] = Some (Prvalue 20, [10, 20])
   \<and> assign_through (Prvalue 20) 99 [10, 20 :: nat] = Some [10, 20, 99]"
proof -
  have hyp: "(1 :: nat) < length [10, 20 :: nat]"
    and val: "value_of (Ref Lvalue 1) [10, 20 :: nat] = Some 20"
    by (simp_all add: lookup_def)
  from identity_value_category [of Lvalue 1 "[10, 20 :: nat]" 99 20 "Ref Lvalue 1" "\<lambda>v. 0"]
    hyp val
  show ?thesis
    by (simp add: identity__t_call_def init_from_forward_def lookup_def materialize_def)
qed

end
